theory Spec2Isabelle
  imports Complex_Main
begin

section \<open>Heuristic sign recognition (services/signRecognition.js)\<close>

text \<open>
  The object produced by \<^verbatim>\<open>extractHandFeatures\<close>, restricted to the properties that
  \<^verbatim>\<open>recognizeSign\<close> destructures. The count is kept as an independent number, since
  \<^verbatim>\<open>recognizeSign\<close> reads it from its argument and never recomputes it.
\<close>

record features =
  extendedCount :: int
  thumbExtended :: bool
  indexExtended :: bool
  middleExtended :: bool
  ringExtended :: bool
  pinkyExtended :: bool

text \<open>
  The object returned by \<^verbatim>\<open>recognizeSign\<close>; \<^verbatim>\<open>sign: null\<close> is \<open>None\<close>, and the two
  returns without a \<^verbatim>\<open>name\<close> property have \<open>name = None\<close>.
\<close>

record recognition =
  sign :: "string option"
  name :: "string option"
  confidence :: rat

text \<open>\<^verbatim>\<open>recognizeSign(features)\<close>; a falsy argument (\<^verbatim>\<open>null\<close>) is \<open>None\<close>.\<close>

definition recognizeSign :: "features option \<Rightarrow> recognition" where
  "recognizeSign fo =
    (case fo of
       None \<Rightarrow> \<lparr>sign = None, name = None, confidence = 0\<rparr>
     | Some f \<Rightarrow>
        if extendedCount f = 0
          then \<lparr>sign = Some ''STOP'', name = Some ''Stop'', confidence = 85 / 100\<rparr>
        else if thumbExtended f \<and> \<not> indexExtended f \<and> \<not> middleExtended f
                \<and> \<not> ringExtended f \<and> \<not> pinkyExtended f
          then \<lparr>sign = Some ''YES'', name = Some ''Yes'', confidence = 9 / 10\<rparr>
        else if \<not> thumbExtended f \<and> indexExtended f \<and> \<not> middleExtended f
                \<and> \<not> ringExtended f \<and> \<not> pinkyExtended f
          then \<lparr>sign = Some ''ONE'', name = Some ''One (1)'', confidence = 85 / 100\<rparr>
        else if indexExtended f \<and> middleExtended f \<and> \<not> ringExtended f \<and> \<not> pinkyExtended f
          then \<lparr>sign = Some ''PEACE'', name = Some ''Peace'', confidence = 85 / 100\<rparr>
        else if thumbExtended f \<and> indexExtended f \<and> middleExtended f
                \<and> \<not> ringExtended f \<and> \<not> pinkyExtended f
          then \<lparr>sign = Some ''THREE'', name = Some ''Three (3)'', confidence = 85 / 100\<rparr>
        else if \<not> thumbExtended f \<and> indexExtended f \<and> middleExtended f
                \<and> ringExtended f \<and> pinkyExtended f
          then \<lparr>sign = Some ''FOUR'', name = Some ''Four (4)'', confidence = 85 / 100\<rparr>
        else if thumbExtended f \<and> indexExtended f \<and> middleExtended f
                \<and> ringExtended f \<and> pinkyExtended f
          then \<lparr>sign = Some ''HELLO'', name = Some ''Hello'', confidence = 85 / 100\<rparr>
        else if extendedCount f = 1 \<and> thumbExtended f
          then \<lparr>sign = Some ''YES'', name = Some ''Yes'', confidence = 7 / 10\<rparr>
        else if extendedCount f \<ge> 5
          then \<lparr>sign = Some ''HELLO'', name = Some ''Hello'', confidence = 7 / 10\<rparr>
        else \<lparr>sign = None, name = None, confidence = 0\<rparr>)"

section \<open>Sign buffer, debounce timer and dispatch (services/geminiService.js)\<close>

subsection \<open>Translation results\<close>

text \<open>\<^verbatim>\<open>Array.prototype.join\<close> on an array of strings.\<close>

fun join :: "string \<Rightarrow> string list \<Rightarrow> string" where
  "join sep [] = []"
| "join sep [x] = x"
| "join sep (x # y # ys) = x @ sep @ join sep (y # ys)"

text \<open>
  \<^verbatim>\<open>String.prototype.trim\<close>, on the ASCII white space and line terminators
  (tab, line feed, vertical tab, form feed, carriage return, space).
\<close>

definition is_space :: "char \<Rightarrow> bool" where
  "is_space c = (c \<in> set [CHR 0x09, CHR 0x0A, CHR 0x0B, CHR 0x0C, CHR 0x0D, CHR 0x20])"

definition trim :: "string \<Rightarrow> string" where
  "trim s = rev (dropWhile is_space (rev (dropWhile is_space s)))"

text \<open>
  The result object handed to the caller's callback. \<^verbatim>\<open>displaySigns\<close> and \<^verbatim>\<open>error\<close>
  are properties that only some of the object literals of the source carry;
  \<open>method_tag\<close> is the property \<^verbatim>\<open>method\<close>.
\<close>

record translation_result =
  success :: bool
  translation :: string
  originalSigns :: "string list"
  displaySigns :: "string list option"
  method_tag :: string
  error :: "string option"

text \<open>
  What the \<^verbatim>\<open>try\<close> block of \<^verbatim>\<open>translateSignSequence\<close> meets: the backend answers with
  a text, or something in the block throws an \<^verbatim>\<open>Error\<close> whose \<^verbatim>\<open>message\<close> is given.
\<close>

datatype backend_outcome = Responds string | Throws string

definition translateSignSequence :: "backend_outcome \<Rightarrow> string list \<Rightarrow> translation_result" where
  "translateSignSequence outcome signs =
    (case outcome of
       Responds text \<Rightarrow>
         \<lparr>success = True, translation = trim text, originalSigns = signs,
          displaySigns = None, method_tag = ''gemini-context'', error = None\<rparr>
     | Throws message \<Rightarrow>
         \<lparr>success = False, translation = join '' '' signs, originalSigns = signs,
          displaySigns = None, method_tag = ''fallback-direct'', error = Some message\<rparr>)"

subsection \<open>Module state and the platform's timers\<close>

text \<open>A callback function passed by the caller, known by an identifier.\<close>

type_synonym callback = nat

text \<open>
  A pending timeout of the platform: its handle, the time at which it is due, and the
  two variables its arrow function closes over.
\<close>

record timer =
  handle :: nat
  due :: int
  callback :: callback
  useGemini :: bool

text \<open>
  The module-level variables \<^verbatim>\<open>signBuffer\<close>, \<^verbatim>\<open>lastSignTime\<close> and \<^verbatim>\<open>bufferTimer\<close>,
  together with the environment they act on: the platform's table of pending timeouts
  (in the order they were set) and its handle counter, the translation requests that
  await the backend, and the log of callback invocations.
\<close>

record world =
  signBuffer :: "string list"
  lastSignTime :: int
  bufferTimer :: "nat option"
  timers :: "timer list"
  nextHandle :: nat
  inflight :: "(callback \<times> string list) list"
  calls :: "(callback \<times> translation_result) list"

text \<open>The state at module load. Timer handles are positive integers.\<close>

definition init :: world where
  "init = \<lparr>signBuffer = [], lastSignTime = 0, bufferTimer = None, timers = [],
           nextHandle = 1, inflight = [], calls = []\<rparr>"

definition clearTimeout :: "nat \<Rightarrow> world \<Rightarrow> world" where
  "clearTimeout h w = w\<lparr>timers := filter (\<lambda>tm. handle tm \<noteq> h) (timers w)\<rparr>"

definition setTimeout :: "callback \<Rightarrow> bool \<Rightarrow> int \<Rightarrow> int \<Rightarrow> world \<Rightarrow> nat \<times> world" where
  "setTimeout cb g delay now w =
    (nextHandle w,
     w\<lparr>timers := timers w @ [\<lparr>handle = nextHandle w, due = now + delay, callback = cb, useGemini = g\<rparr>],
       nextHandle := Suc (nextHandle w)\<rparr>)"

text \<open>\<^verbatim>\<open>if (bufferTimer) clearTimeout(bufferTimer)\<close>: \<^verbatim>\<open>null\<close> and \<^verbatim>\<open>0\<close> are falsy.\<close>

definition clear_if_set :: "world \<Rightarrow> world" where
  "clear_if_set w =
    (case bufferTimer w of
       None \<Rightarrow> w
     | Some h \<Rightarrow> if h \<noteq> 0 then clearTimeout h w else w)"

subsection \<open>The exported operations\<close>

text \<open>
  \<^verbatim>\<open>addSignToBuffer(signName, callback, useGemini = false)\<close>. The optional third
  argument is \<open>None\<close> when the caller leaves it out; \<open>now\<close> is the value of
  \<^verbatim>\<open>Date.now()\<close>. Returns the copy of the buffer and the new state.
\<close>

definition addSignToBuffer ::
  "string \<Rightarrow> callback \<Rightarrow> bool option \<Rightarrow> int \<Rightarrow> world \<Rightarrow> string list \<times> world" where
  "addSignToBuffer signName cb useGeminiArg now w =
    (let g = (case useGeminiArg of None \<Rightarrow> False | Some b \<Rightarrow> b) in
     if length (signBuffer w) > 0 \<and> last (signBuffer w) = signName
          \<and> now - lastSignTime w < 3000
       then (signBuffer w, w)
     else if length (signBuffer w) > 0 \<and> last (signBuffer w) = signName
       then (signBuffer w, w)
     else
       let w1 = w\<lparr>signBuffer := signBuffer w @ [signName]\<rparr>;
           w2 = w1\<lparr>lastSignTime := now\<rparr>;
           w3 = clear_if_set w2;
           (h, w4) = setTimeout cb g 4000 now w3;
           w5 = w4\<lparr>bufferTimer := Some h\<rparr>
       in (signBuffer w5, w5))"

text \<open>
  The arrow function given to \<^verbatim>\<open>setTimeout\<close>. In context-aware mode it runs up to the
  \<^verbatim>\<open>await\<close>: the request is under way and the callback has not been called yet.
\<close>

definition flush_callback :: "callback \<Rightarrow> bool \<Rightarrow> world \<Rightarrow> world" where
  "flush_callback cb g w =
    (if length (signBuffer w) > 0 then
       let signsToTranslate = signBuffer w;
           w1 = w\<lparr>signBuffer := []\<rparr>
       in if g then w1\<lparr>inflight := inflight w1 @ [(cb, signsToTranslate)]\<rparr>
          else
            let translation = join '' '' signsToTranslate
            in w1\<lparr>calls := calls w1 @
                 [(cb, \<lparr>success = True, translation = translation,
                        originalSigns = signsToTranslate,
                        displaySigns = Some signsToTranslate,
                        method_tag = ''direct'', error = None\<rparr>)]\<rparr>
     else w)"

text \<open>
  The rest of the arrow function in context-aware mode, run when the \<open>k\<close>-th request
  under way settles with \<open>outcome\<close>.
\<close>

definition translation_settles :: "nat \<Rightarrow> backend_outcome \<Rightarrow> world \<Rightarrow> world" where
  "translation_settles k outcome w =
    (if k < length (inflight w) then
       let (cb, signsToTranslate) = inflight w ! k;
           result = translateSignSequence outcome signsToTranslate;
           result' = result\<lparr>displaySigns := Some signsToTranslate\<rparr>
       in w\<lparr>inflight := take k (inflight w) @ drop (Suc k) (inflight w),
            calls := calls w @ [(cb, result')]\<rparr>
     else w)"

text \<open>The platform runs the timeout with handle \<open>h\<close>, if it is pending: it fires once.\<close>

definition timer_fires :: "nat \<Rightarrow> world \<Rightarrow> world" where
  "timer_fires h w =
    (case find (\<lambda>tm. handle tm = h) (timers w) of
       None \<Rightarrow> w
     | Some tm \<Rightarrow> flush_callback (callback tm) (useGemini tm) (clearTimeout h w))"

definition clearSignBuffer :: "world \<Rightarrow> world" where
  "clearSignBuffer w = clear_if_set (w\<lparr>signBuffer := []\<rparr>)"

definition getSignBuffer :: "world \<Rightarrow> string list" where
  "getSignBuffer w = signBuffer w"

subsection \<open>Runs of the module\<close>

text \<open>
  What can happen to the module: a call of an exported operation, the platform running
  a pending timeout, or a translation request settling. Timestamps are whatever
  \<^verbatim>\<open>Date.now()\<close> returned, and timeouts may run in any order, so every schedule of
  the event loop is a run.
\<close>

datatype event =
    AddSign string callback "bool option" int
  | TimerFires nat
  | ClearSignBuffer
  | TranslationSettles nat backend_outcome

fun step :: "event \<Rightarrow> world \<Rightarrow> world" where
  "step (AddSign signName cb g now) w = snd (addSignToBuffer signName cb g now w)"
| "step (TimerFires h) w = timer_fires h w"
| "step ClearSignBuffer w = clearSignBuffer w"
| "step (TranslationSettles k outcome) w = translation_settles k outcome w"

fun run :: "event list \<Rightarrow> world \<Rightarrow> world" where
  "run [] w = w"
| "run (e # es) w = run es (step e w)"

text \<open>
  Observations on one step: the call appended its sign (the buffer it returns is not
  the buffer before), the timeout dispatched a snapshot (directly to the callback, or
  to the backend).
\<close>

definition appends :: "event \<Rightarrow> world \<Rightarrow> bool" where
  "appends e w =
    (case e of
       AddSign signName cb g now \<Rightarrow> fst (addSignToBuffer signName cb g now w) \<noteq> signBuffer w
     | _ \<Rightarrow> False)"

definition dispatches :: "event \<Rightarrow> world \<Rightarrow> bool" where
  "dispatches e w =
    (case e of
       TimerFires h \<Rightarrow> calls (step e w) \<noteq> calls w \<or> inflight (step e w) \<noteq> inflight w
     | _ \<Rightarrow> False)"

text \<open>
  The tokens appended along a run since the last flush or clear, starting from \<open>acc\<close>.
\<close>

fun since_reset :: "event list \<Rightarrow> world \<Rightarrow> string list \<Rightarrow> string list" where
  "since_reset [] w acc = acc"
| "since_reset (e # es) w acc =
    since_reset es (step e w)
      (case e of
         AddSign signName cb g now \<Rightarrow> if appends e w then acc @ [signName] else acc
       | TimerFires h \<Rightarrow> if dispatches e w then [] else acc
       | ClearSignBuffer \<Rightarrow> []
       | TranslationSettles k outcome \<Rightarrow> acc)"

text \<open>The label appended last along a run and the timestamp of that call, starting from \<open>la\<close>.\<close>

fun last_accepted :: "event list \<Rightarrow> world \<Rightarrow> (string \<times> int) option \<Rightarrow> (string \<times> int) option" where
  "last_accepted [] w la = la"
| "last_accepted (e # es) w la =
    last_accepted es (step e w)
      (case e of
         AddSign signName cb g now \<Rightarrow> if appends e w then Some (signName, now) else la
       | _ \<Rightarrow> la)"

subsection \<open>Runs in time\<close>

text \<open>
  The event loop with a clock: the pending timeout that is due first (the one set first,
  among equals) runs first.
\<close>

definition next_due :: "int \<Rightarrow> world \<Rightarrow> timer option" where
  "next_due t w =
    (case filter (\<lambda>tm. due tm \<le> t) (timers w) of
       [] \<Rightarrow> None
     | tm # tms \<Rightarrow> Some (fold (\<lambda>b a. if due b < due a then b else a) tms tm))"

text \<open>The clock reaches \<open>t\<close>: every timeout due by then runs, in order.\<close>

function advance :: "int \<Rightarrow> world \<Rightarrow> world" where
  "advance t w =
    (case next_due t w of
       None \<Rightarrow> w
     | Some tm \<Rightarrow> advance t (timer_fires (handle tm) w))"
  by pat_completeness auto
termination
proof (relation "measure (\<lambda>(t, w). length (timers w))")
  show "wf (measure (\<lambda>(t, w). length (timers w)))"
    by simp
next
  fix t :: int and w :: world and tm :: timer
  assume nd: "next_due t w = Some tm"
  have pick: "fold (\<lambda>b a. if due b < due a then b else a) ys y \<in> set (y # ys)"
    for y :: timer and ys
    by (induction ys arbitrary: y) (auto split: if_splits)
  from nd obtain a as where
    f: "filter (\<lambda>tm. due tm \<le> t) (timers w) = a # as" and
    tm: "tm = fold (\<lambda>b a. if due b < due a then b else a) as a"
    by (auto simp: next_due_def split: list.splits)
  have "tm \<in> set (a # as)"
    unfolding tm by (rule pick)
  then have "tm \<in> set (filter (\<lambda>tm. due tm \<le> t) (timers w))"
    by (simp only: f)
  then have m: "tm \<in> set (timers w)"
    by simp
  then have "find (\<lambda>x. handle x = handle tm) (timers w) \<noteq> None"
    by (auto simp: find_None_iff)
  moreover have "length (filter (\<lambda>x. handle x \<noteq> handle tm) (timers w)) < length (timers w)"
    using m by (intro length_filter_less[of tm]) auto
  ultimately have "length (timers (timer_fires (handle tm) w)) < length (timers w)"
    by (auto simp: timer_fires_def flush_callback_def clearTimeout_def Let_def)
  then show "((t, timer_fires (handle tm) w), t, w) \<in> measure (\<lambda>(t, w). length (timers w))"
    by simp
qed

declare advance.simps [simp del]

text \<open>What the application does at a moment of time \<open>t\<close>, at which \<^verbatim>\<open>Date.now()\<close> is \<open>t\<close>.\<close>

datatype action =
    Sign string callback "bool option"
  | Reset
  | Settles nat backend_outcome

fun perform :: "int \<Rightarrow> action \<Rightarrow> world \<Rightarrow> world" where
  "perform t (Sign signName cb g) w = snd (addSignToBuffer signName cb g t w)"
| "perform t Reset w = clearSignBuffer w"
| "perform t (Settles k outcome) w = translation_settles k outcome w"

fun simulate :: "(int \<times> action) list \<Rightarrow> world \<Rightarrow> world" where
  "simulate [] w = w"
| "simulate ((t, a) # es) w = simulate es (perform t a (advance t w))"

text \<open>The signs \<open>toks\<close> detected one every \<open>d\<close> milliseconds from time \<open>t\<close> on.\<close>

fun spaced :: "int \<Rightarrow> int \<Rightarrow> callback \<Rightarrow> bool option \<Rightarrow> string list \<Rightarrow> (int \<times> action) list" where
  "spaced t d cb g [] = []"
| "spaced t d cb g (s # ss) = (t, Sign s cb g) # spaced (t + d) d cb g ss"

subsection \<open>Invariants of runs\<close>

text \<open>
  The shape of the timer state in every run: handles are positive and fresh, and the
  only timeout that can be pending is the one \<^verbatim>\<open>bufferTimer\<close> holds.
\<close>

definition timers_ok :: "world \<Rightarrow> bool" where
  "timers_ok w \<longleftrightarrow>
     0 < nextHandle w \<and> bufferTimer w \<noteq> Some 0 \<and> length (timers w) \<le> 1 \<and>
     list_all (\<lambda>tm. bufferTimer w = Some (handle tm) \<and> handle tm < nextHandle w) (timers w)"

text \<open>The timeouts left pending by \<^verbatim>\<open>if (bufferTimer) clearTimeout(bufferTimer)\<close>.\<close>

definition pending_after_clear :: "world \<Rightarrow> timer list" where
  "pending_after_clear w =
    (case bufferTimer w of
       None \<Rightarrow> timers w
     | Some h \<Rightarrow> if h \<noteq> 0 then filter (\<lambda>tm. handle tm \<noteq> h) (timers w) else timers w)"

text \<open>
  \<^verbatim>\<open>lastSignTime\<close> and the end of the buffer agree with the last acceptance \<open>la\<close> of
  a run.
\<close>

definition tracks :: "world \<Rightarrow> (string \<times> int) option \<Rightarrow> bool" where
  "tracks w la =
    (case la of
       None \<Rightarrow> signBuffer w = [] \<and> lastSignTime w = 0
     | Some (s, t) \<Rightarrow> lastSignTime w = t \<and> (signBuffer w = [] \<or> last (signBuffer w) = s))"

section \<open>Basic facts about the operations\<close>

lemma timers_flush_callback: "timers (flush_callback cb g w) = timers w"
  by (simp add: flush_callback_def Let_def)

subsection \<open>The two outcomes of a call\<close>

lemma add_rejected:
  "signBuffer w \<noteq> [] \<Longrightarrow> last (signBuffer w) = s \<Longrightarrow>
   addSignToBuffer s cb g now w = (signBuffer w, w)"
  by (simp add: addSignToBuffer_def)

lemma add_accepted:
  assumes "signBuffer w = [] \<or> last (signBuffer w) \<noteq> s"
  shows "addSignToBuffer s cb g now w =
     (signBuffer w @ [s],
      w\<lparr>signBuffer := signBuffer w @ [s], lastSignTime := now,
        bufferTimer := Some (nextHandle w),
        timers := pending_after_clear w @
          [\<lparr>handle = nextHandle w, due = now + 4000, callback = cb,
            useGemini = (case g of None \<Rightarrow> False | Some b \<Rightarrow> b)\<rparr>],
        nextHandle := Suc (nextHandle w)\<rparr>)"
  using assms
  by (auto simp: addSignToBuffer_def Let_def setTimeout_def clear_if_set_def clearTimeout_def
      pending_after_clear_def split: option.splits)

lemma appends_iff:
  "appends (AddSign s cb g now) w \<longleftrightarrow> signBuffer w = [] \<or> last (signBuffer w) \<noteq> s"
proof (cases "signBuffer w = [] \<or> last (signBuffer w) \<noteq> s")
  case True
  then show ?thesis by (simp add: appends_def add_accepted)
next
  case False
  then show ?thesis by (simp add: appends_def add_rejected)
qed

lemma signBuffer_add:
  "signBuffer (snd (addSignToBuffer s cb g now w)) =
     (if appends (AddSign s cb g now) w then signBuffer w @ [s] else signBuffer w)"
proof (cases "signBuffer w = [] \<or> last (signBuffer w) \<noteq> s")
  case True
  then show ?thesis by (simp add: appends_iff add_accepted)
next
  case False
  then show ?thesis by (simp add: appends_iff add_rejected)
qed

subsection \<open>A timeout running\<close>

lemma timer_fires_not_pending:
  "find (\<lambda>tm. handle tm = h) (timers w) = None \<Longrightarrow> timer_fires h w = w"
  by (simp add: timer_fires_def)

lemma timer_fires_empty:
  "signBuffer w = [] \<Longrightarrow> find (\<lambda>tm. handle tm = h) (timers w) = Some tm \<Longrightarrow>
   timer_fires h w = clearTimeout h w"
  by (simp add: timer_fires_def flush_callback_def clearTimeout_def)

lemma timer_fires_direct:
  assumes "signBuffer w \<noteq> []" "find (\<lambda>tm. handle tm = h) (timers w) = Some tm" "\<not> useGemini tm"
  shows "timer_fires h w =
    w\<lparr>signBuffer := [], timers := filter (\<lambda>tm. handle tm \<noteq> h) (timers w),
      calls := calls w @
        [(callback tm, \<lparr>success = True, translation = join '' '' (signBuffer w),
            originalSigns = signBuffer w, displaySigns = Some (signBuffer w),
            method_tag = ''direct'', error = None\<rparr>)]\<rparr>"
  using assms by (simp add: timer_fires_def flush_callback_def clearTimeout_def Let_def)

lemma timer_fires_gemini:
  assumes "signBuffer w \<noteq> []" "find (\<lambda>tm. handle tm = h) (timers w) = Some tm" "useGemini tm"
  shows "timer_fires h w =
    w\<lparr>signBuffer := [], timers := filter (\<lambda>tm. handle tm \<noteq> h) (timers w),
      inflight := inflight w @ [(callback tm, signBuffer w)]\<rparr>"
  using assms by (simp add: timer_fires_def flush_callback_def clearTimeout_def Let_def)

lemma dispatches_iff:
  "dispatches (TimerFires h) w \<longleftrightarrow>
     signBuffer w \<noteq> [] \<and> find (\<lambda>tm. handle tm = h) (timers w) \<noteq> None"
proof (cases "find (\<lambda>tm. handle tm = h) (timers w)")
  case None
  then show ?thesis by (simp add: dispatches_def timer_fires_not_pending)
next
  case (Some tm)
  show ?thesis
  proof (cases "signBuffer w = []")
    case True
    then show ?thesis using Some
      by (simp add: dispatches_def timer_fires_empty clearTimeout_def)
  next
    case False
    then show ?thesis using Some
      by (cases "useGemini tm") (simp_all add: dispatches_def timer_fires_direct timer_fires_gemini)
  qed
qed

lemma signBuffer_timer_fires:
  "signBuffer (timer_fires h w) = (if dispatches (TimerFires h) w then [] else signBuffer w)"
proof (cases "find (\<lambda>tm. handle tm = h) (timers w)")
  case None
  then show ?thesis by (simp add: dispatches_iff timer_fires_not_pending)
next
  case (Some tm)
  show ?thesis
  proof (cases "signBuffer w = []")
    case True
    then show ?thesis using Some
      by (simp add: dispatches_iff timer_fires_empty clearTimeout_def)
  next
    case False
    then show ?thesis using Some
      by (cases "useGemini tm") (simp_all add: dispatches_iff timer_fires_direct timer_fires_gemini)
  qed
qed

lemma lastSignTime_timer_fires: "lastSignTime (timer_fires h w) = lastSignTime w"
  by (simp add: timer_fires_def flush_callback_def clearTimeout_def Let_def split: option.split)

subsection \<open>Clearing and settling\<close>

lemma signBuffer_clear_if_set: "signBuffer (clear_if_set w) = signBuffer w"
  by (simp add: clear_if_set_def clearTimeout_def split: option.split)

lemma signBuffer_clearSignBuffer: "signBuffer (clearSignBuffer w) = []"
  by (simp add: clearSignBuffer_def signBuffer_clear_if_set)

lemma lastSignTime_clearSignBuffer: "lastSignTime (clearSignBuffer w) = lastSignTime w"
  by (simp add: clearSignBuffer_def clear_if_set_def clearTimeout_def split: option.split)

lemma calls_clearSignBuffer:
  "calls (clearSignBuffer w) = calls w" "inflight (clearSignBuffer w) = inflight w"
  by (simp_all add: clearSignBuffer_def clear_if_set_def clearTimeout_def split: option.split)

lemma signBuffer_translation_settles: "signBuffer (translation_settles k outcome w) = signBuffer w"
  by (simp add: translation_settles_def Let_def split: prod.split)

lemma lastSignTime_translation_settles:
  "lastSignTime (translation_settles k outcome w) = lastSignTime w"
  by (simp add: translation_settles_def Let_def split: prod.split)

subsection \<open>At most one pending timeout\<close>

lemma timers_ok_pending_after_clear: "timers_ok w \<Longrightarrow> pending_after_clear w = []"
  by (cases "timers w") (auto simp: timers_ok_def pending_after_clear_def split: option.splits)

lemma timers_ok_init: "timers_ok init"
  by (simp add: timers_ok_def init_def)

lemma timers_ok_add: "timers_ok w \<Longrightarrow> timers_ok (snd (addSignToBuffer s cb g now w))"
proof (cases "signBuffer w = [] \<or> last (signBuffer w) \<noteq> s")
  case True
  assume "timers_ok w"
  then show ?thesis
    by (simp add: add_accepted[OF True] timers_ok_pending_after_clear) (simp add: timers_ok_def)
next
  case False
  assume "timers_ok w"
  with False show ?thesis by (simp add: add_rejected)
qed

lemma timers_ok_flush_callback: "timers_ok (flush_callback cb g w) = timers_ok w"
  by (simp add: flush_callback_def timers_ok_def Let_def)

lemma timers_ok_clearTimeout: "timers_ok w \<Longrightarrow> timers_ok (clearTimeout h w)"
  by (cases "timers w") (auto simp: timers_ok_def clearTimeout_def)

lemma timers_ok_timer_fires: "timers_ok w \<Longrightarrow> timers_ok (timer_fires h w)"
  by (simp add: timer_fires_def timers_ok_flush_callback timers_ok_clearTimeout split: option.split)

lemma timers_ok_clearSignBuffer: "timers_ok w \<Longrightarrow> timers_ok (clearSignBuffer w)"
  by (cases "timers w") (auto simp: timers_ok_def clearSignBuffer_def clear_if_set_def clearTimeout_def split: option.splits)

lemma timers_ok_translation_settles: "timers_ok w \<Longrightarrow> timers_ok (translation_settles k outcome w)"
  by (simp add: translation_settles_def timers_ok_def Let_def split: prod.split)

lemma timers_ok_step: "timers_ok w \<Longrightarrow> timers_ok (step e w)"
  by (cases e) (simp_all add: timers_ok_add timers_ok_timer_fires timers_ok_clearSignBuffer timers_ok_translation_settles)

lemma timers_ok_run: "timers_ok w \<Longrightarrow> timers_ok (run es w)"
  by (induction es arbitrary: w) (simp_all add: timers_ok_step)

lemma timers_clearSignBuffer: "timers_ok w \<Longrightarrow> timers (clearSignBuffer w) = []"
  by (cases "timers w")
     (auto simp: timers_ok_def clearSignBuffer_def clear_if_set_def clearTimeout_def split: option.splits)

lemma idle_step:
  assumes "timers_ok w" "signBuffer w = [] \<longrightarrow> timers w = []"
  shows "signBuffer (step e w) = [] \<longrightarrow> timers (step e w) = []"
proof (cases e)
  case (AddSign s cb g now)
  show ?thesis
  proof (cases "signBuffer w = [] \<or> last (signBuffer w) \<noteq> s")
    case True
    then show ?thesis by (simp add: AddSign add_accepted)
  next
    case False
    then show ?thesis using assms by (simp add: AddSign add_rejected)
  qed
next
  case (TimerFires h)
  show ?thesis
  proof (cases "find (\<lambda>tm. handle tm = h) (timers w)")
    case None
    then show ?thesis using assms by (simp add: TimerFires timer_fires_not_pending)
  next
    case (Some tm)
    then have "tm \<in> set (timers w) \<and> handle tm = h"
      by (auto simp: find_Some_iff in_set_conv_nth)
    with assms(1) have "filter (\<lambda>tm. handle tm \<noteq> h) (timers w) = []"
      by (cases "timers w") (auto simp: timers_ok_def)
    then show ?thesis
      by (simp add: TimerFires timer_fires_def Some timers_flush_callback clearTimeout_def)
  qed
next
  case ClearSignBuffer
  have "timers (clearSignBuffer w) = []"
    using assms(1)
    by (cases "timers w")
       (auto simp: timers_ok_def clearSignBuffer_def clear_if_set_def clearTimeout_def split: option.splits)
  then show ?thesis by (simp add: ClearSignBuffer)
next
  case (TranslationSettles k outcome)
  have "timers (translation_settles k outcome w) = timers w"
    by (simp add: translation_settles_def Let_def split: prod.split)
  then show ?thesis using assms
    by (simp add: TranslationSettles signBuffer_translation_settles)
qed

lemma idle_run:
  "timers_ok w \<Longrightarrow> signBuffer w = [] \<longrightarrow> timers w = [] \<Longrightarrow>
   signBuffer (run es w) = [] \<longrightarrow> timers (run es w) = []"
proof (induction es arbitrary: w)
  case Nil
  then show ?case by simp
next
  case (Cons e es)
  show ?case
    using Cons.IH[OF timers_ok_step[OF Cons.prems(1)] idle_step[OF Cons.prems]] by simp
qed

lemma idle_reachable: "signBuffer (run es init) = [] \<Longrightarrow> timers (run es init) = []"
  using idle_run[OF timers_ok_init, of es] by (simp add: init_def)

subsection \<open>The buffer along a run\<close>

lemma buffer_since_reset: "signBuffer (run es w) = since_reset es w (signBuffer w)"
proof (induction es arbitrary: w)
  case Nil
  show ?case by simp
next
  case (Cons e es)
  show ?case
    by (cases e)
       (simp_all add: Cons.IH signBuffer_add signBuffer_timer_fires
          signBuffer_clearSignBuffer signBuffer_translation_settles)
qed

lemma distinct_adj_step: "distinct_adj (signBuffer w) \<Longrightarrow> distinct_adj (signBuffer (step e w))"
proof (cases e)
  case (AddSign s cb g now)
  assume "distinct_adj (signBuffer w)"
  then show ?thesis
    by (auto simp: AddSign signBuffer_add appends_iff distinct_adj_append_iff)
next
  case (TimerFires h)
  assume "distinct_adj (signBuffer w)"
  then show ?thesis by (simp add: TimerFires signBuffer_timer_fires)
next
  case ClearSignBuffer
  then show ?thesis by (simp add: signBuffer_clearSignBuffer)
next
  case (TranslationSettles k outcome)
  assume "distinct_adj (signBuffer w)"
  then show ?thesis by (simp add: TranslationSettles signBuffer_translation_settles)
qed

lemma distinct_adj_run: "distinct_adj (signBuffer w) \<Longrightarrow> distinct_adj (signBuffer (run es w))"
  by (induction es arbitrary: w) (simp_all add: distinct_adj_step)

lemma tracks_step:
  assumes "tracks w la"
  shows "tracks (step e w)
    (case e of
       AddSign signName cb g now \<Rightarrow> if appends e w then Some (signName, now) else la
     | _ \<Rightarrow> la)"
proof (cases e)
  case (AddSign s cb g now)
  show ?thesis
  proof (cases "signBuffer w = [] \<or> last (signBuffer w) \<noteq> s")
    case True
    then show ?thesis
      by (simp add: AddSign appends_iff add_accepted tracks_def)
  next
    case False
    then show ?thesis using assms
      by (simp add: AddSign appends_iff add_rejected)
  qed
next
  case (TimerFires h)
  show ?thesis using assms
    by (auto simp: TimerFires tracks_def signBuffer_timer_fires lastSignTime_timer_fires
        split: option.splits)
next
  case ClearSignBuffer
  show ?thesis using assms
    by (auto simp: ClearSignBuffer tracks_def signBuffer_clearSignBuffer
        lastSignTime_clearSignBuffer split: option.splits)
next
  case (TranslationSettles k outcome)
  show ?thesis using assms
    by (auto simp: TranslationSettles tracks_def signBuffer_translation_settles
        lastSignTime_translation_settles split: option.splits)
qed

lemma tracks_run: "tracks w la \<Longrightarrow> tracks (run es w) (last_accepted es w la)"
proof (induction es arbitrary: w la)
  case Nil
  then show ?case by simp
next
  case (Cons e es)
  from tracks_step[OF Cons.prems, of e] show ?case
    by (simp add: Cons.IH)
qed

lemma tracks_init: "tracks init None"
  by (simp add: tracks_def init_def)

subsection \<open>The clock\<close>

lemma next_due_idle: "list_all (\<lambda>tm. t < due tm) (timers w) \<Longrightarrow> next_due t w = None"
proof -
  assume "list_all (\<lambda>tm. t < due tm) (timers w)"
  then have "filter (\<lambda>tm. due tm \<le> t) (timers w) = []"
    by (auto simp: filter_empty_conv list_all_iff)
  then show ?thesis by (simp add: next_due_def)
qed

lemma advance_idle: "list_all (\<lambda>tm. t < due tm) (timers w) \<Longrightarrow> advance t w = w"
  by (subst advance.simps) (simp add: next_due_idle)

lemma advance_single:
  assumes "timers w = [tm]" "due tm \<le> t"
  shows "advance t w = timer_fires (handle tm) w"
proof -
  have nd: "next_due t w = Some tm"
    using assms by (simp add: next_due_def)
  have "timers (timer_fires (handle tm) w) = []"
    using assms by (simp add: timer_fires_def timers_flush_callback clearTimeout_def)
  then have "advance t (timer_fires (handle tm) w) = timer_fires (handle tm) w"
    by (intro advance_idle) simp
  then show ?thesis
    by (subst advance.simps) (simp add: nd)
qed

lemma simulate_spaced:
  assumes "timers_ok w"
    and "timers w = [] \<or> (\<exists>tm. timers w = [tm] \<and> t < due tm)"
    and "signBuffer w = [] \<or> last (signBuffer w) \<noteq> s"
    and "distinct_adj (s # ss)"
    and "0 \<le> d" "d < 4000"
  shows "simulate (spaced t d cb g (s # ss)) w =
    w\<lparr>signBuffer := signBuffer w @ s # ss,
      lastSignTime := t + d * int (length ss),
      bufferTimer := Some (nextHandle w + length ss),
      timers := [\<lparr>handle = nextHandle w + length ss, due = t + d * int (length ss) + 4000,
                  callback = cb, useGemini = (case g of None \<Rightarrow> False | Some b \<Rightarrow> b)\<rparr>],
      nextHandle := Suc (nextHandle w + length ss)\<rparr>"
  using assms
proof (induction ss arbitrary: w t s)
  case Nil
  from Nil.prems(2) have "advance t w = w"
    by (intro advance_idle) auto
  then show ?case
    using Nil.prems(1,3) by (simp add: add_accepted timers_ok_pending_after_clear)
next
  case (Cons s' ss)
  define w1 where "w1 = snd (addSignToBuffer s cb g t w)"
  from Cons.prems(2) have adv: "advance t w = w"
    by (intro advance_idle) auto
  have w1: "w1 = w\<lparr>signBuffer := signBuffer w @ [s], lastSignTime := t,
        bufferTimer := Some (nextHandle w),
        timers := [\<lparr>handle = nextHandle w, due = t + 4000, callback = cb,
            useGemini = (case g of None \<Rightarrow> False | Some b \<Rightarrow> b)\<rparr>],
        nextHandle := Suc (nextHandle w)\<rparr>"
    using Cons.prems(1,3) by (simp add: w1_def add_accepted timers_ok_pending_after_clear)
  have ok1: "timers_ok w1"
    unfolding w1_def using Cons.prems(1) by (rule timers_ok_add)
  have t1: "timers w1 = [] \<or> (\<exists>tm. timers w1 = [tm] \<and> t + d < due tm)"
    using Cons.prems(6) by (simp add: w1)
  have l1: "signBuffer w1 = [] \<or> last (signBuffer w1) \<noteq> s'"
    using Cons.prems(4) by (simp add: w1)
  have d1: "distinct_adj (s' # ss)"
    using Cons.prems(4) by simp
  have "simulate (spaced t d cb g (s # s' # ss)) w = simulate (spaced (t + d) d cb g (s' # ss)) w1"
    by (simp add: adv w1_def)
  also have "\<dots> = w1\<lparr>signBuffer := signBuffer w1 @ s' # ss,
      lastSignTime := t + d + d * int (length ss),
      bufferTimer := Some (nextHandle w1 + length ss),
      timers := [\<lparr>handle = nextHandle w1 + length ss, due = t + d + d * int (length ss) + 4000,
                  callback = cb, useGemini = (case g of None \<Rightarrow> False | Some b \<Rightarrow> b)\<rparr>],
      nextHandle := Suc (nextHandle w1 + length ss)\<rparr>"
    by (rule Cons.IH[OF ok1 t1 l1 d1 Cons.prems(5,6)])
  finally show ?case
    by (simp add: w1 algebra_simps)
qed

subsection \<open>Evaluation on concrete runs\<close>

lemmas eval_defs = init_def addSignToBuffer_def setTimeout_def clear_if_set_def clearTimeout_def
  clearSignBuffer_def getSignBuffer_def Let_def

section \<open>The claims\<close>

text \<open>
  C1 (atomic flush). When the platform runs a pending timeout and the buffer is not
  empty, the buffer read right afterwards is empty and the snapshot dispatched is the
  buffer as it was: in direct mode the callback is called once, with a result whose
  \<^verbatim>\<open>originalSigns\<close> is the snapshot, and in context-aware mode one request with the
  snapshot is under way. When the buffer is empty, nothing is dispatched. In every run
  from module load the buffer, hence the snapshot, is exactly the list of tokens
  appended since the last flush or clear.
\<close>

theorem flush_is_atomic:
  assumes "find (\<lambda>tm. handle tm = h) (timers w) = Some tm"
  shows "(signBuffer w \<noteq> [] \<longrightarrow>
           getSignBuffer (timer_fires h w) = [] \<and>
           (if useGemini tm
            then inflight (timer_fires h w) = inflight w @ [(callback tm, signBuffer w)]
                 \<and> calls (timer_fires h w) = calls w
            else calls (timer_fires h w) = calls w @
                   [(callback tm, \<lparr>success = True, translation = join '' '' (signBuffer w),
                      originalSigns = signBuffer w, displaySigns = Some (signBuffer w),
                      method_tag = ''direct'', error = None\<rparr>)]
                 \<and> inflight (timer_fires h w) = inflight w))
       \<and> (signBuffer w = [] \<longrightarrow>
           getSignBuffer (timer_fires h w) = [] \<and> calls (timer_fires h w) = calls w
           \<and> inflight (timer_fires h w) = inflight w)
       \<and> (w = run es init \<longrightarrow> signBuffer w = since_reset es init [])"
proof (intro conjI impI)
  assume "w = run es init"
  then show "signBuffer w = since_reset es init []"
    using buffer_since_reset[of es init] by (simp add: init_def)
next
  assume ne: "signBuffer w \<noteq> []"
  show "getSignBuffer (timer_fires h w) = []"
    using ne assms by (simp add: getSignBuffer_def signBuffer_timer_fires dispatches_iff)
  show "if useGemini tm
        then inflight (timer_fires h w) = inflight w @ [(callback tm, signBuffer w)]
             \<and> calls (timer_fires h w) = calls w
        else calls (timer_fires h w) = calls w @
               [(callback tm, \<lparr>success = True, translation = join '' '' (signBuffer w),
                  originalSigns = signBuffer w, displaySigns = Some (signBuffer w),
                  method_tag = ''direct'', error = None\<rparr>)]
             \<and> inflight (timer_fires h w) = inflight w"
    using ne assms by (cases "useGemini tm") (simp_all add: timer_fires_direct timer_fires_gemini)
next
  assume e: "signBuffer w = []"
  show "getSignBuffer (timer_fires h w) = []"
    using e by (simp add: getSignBuffer_def signBuffer_timer_fires)
  show "calls (timer_fires h w) = calls w" "inflight (timer_fires h w) = inflight w"
    using e assms by (simp_all add: timer_fires_empty clearTimeout_def)
qed

theorem flush_is_atomic_witness:
  "(let es = [AddSign ''ONE'' 7 None 0, AddSign ''ONE'' 7 None 500, AddSign ''TWO'' 7 None 600];
        w = run es init
    in find (\<lambda>tm. handle tm = 2) (timers w)
         = Some \<lparr>handle = 2, due = 4600, callback = 7, useGemini = False\<rparr>
       \<and> getSignBuffer w = [''ONE'', ''TWO'']
       \<and> since_reset es init [] = [''ONE'', ''TWO'']
       \<and> getSignBuffer (timer_fires 2 w) = []
       \<and> calls (timer_fires 2 w) =
           [(7, \<lparr>success = True, translation = ''ONE TWO'',
                originalSigns = [''ONE'', ''TWO''], displaySigns = Some [''ONE'', ''TWO''],
                method_tag = ''direct'', error = None\<rparr>)])"
proof -
  define es where "es = [AddSign ''ONE'' 7 None 0, AddSign ''ONE'' 7 None 500, AddSign ''TWO'' 7 None 600]"
  define w where "w = run es init"
  have w: "w = \<lparr>signBuffer = [''ONE'', ''TWO''], lastSignTime = 600, bufferTimer = Some 2,
      timers = [\<lparr>handle = 2, due = 4600, callback = 7, useGemini = False\<rparr>],
      nextHandle = 3, inflight = [], calls = []\<rparr>"
    by (simp add: w_def es_def eval_defs)
  have h: "find (\<lambda>tm. handle tm = 2) (timers w)
        = Some \<lparr>handle = 2, due = 4600, callback = 7, useGemini = False\<rparr>"
    by (simp add: w)
  have b: "signBuffer w = [''ONE'', ''TWO'']" "calls w = []"
    by (simp_all add: w)
  from flush_is_atomic[OF h, of es] b h w_def show ?thesis
    unfolding Let_def es_def[symmetric] w_def[symmetric] by (simp add: getSignBuffer_def)
qed

text \<open>
  C2 (debounce restart). In every run from module load, a call that appends leaves
  exactly one pending timeout, the new one, due 4000 ms after the call: the one that
  was pending is cancelled. A call that is rejected changes nothing, so the pending
  timeout keeps its time. Hence, from a state with an empty buffer, signs \<open>toks\<close>
  that are all accepted (no two neighbours equal), one every 2000 ms from time \<open>t\<close> on,
  are all in the buffer with nothing dispatched; nothing happens while the clock is
  before the last call plus 4000 ms; and once the clock has reached it, exactly one
  flush has happened, with all of \<open>toks\<close>, and no timeout is pending any more.
  The clock is that of the platform: \<^verbatim>\<open>Date.now()\<close> reads it and a timeout runs when
  it is due.
\<close>

theorem debounce_restart:
  "(signBuffer (run es init) = [] \<or> last (signBuffer (run es init)) \<noteq> s \<longrightarrow>
      timers (snd (addSignToBuffer s cb g now (run es init))) =
        [\<lparr>handle = nextHandle (run es init), due = now + 4000, callback = cb,
          useGemini = (case g of None \<Rightarrow> False | Some b \<Rightarrow> b)\<rparr>])
   \<and> (signBuffer w \<noteq> [] \<and> last (signBuffer w) = s \<longrightarrow>
        snd (addSignToBuffer s cb g now w) = w)
   \<and> (w0 = run es0 init \<and> signBuffer w0 = [] \<and> toks \<noteq> [] \<and> distinct_adj toks \<longrightarrow>
        (let w' = simulate (spaced t 2000 cb g toks) w0;
             fire = t + 2000 * (int (length toks) - 1) + 4000
         in signBuffer w' = toks \<and> calls w' = calls w0 \<and> inflight w' = inflight w0
            \<and> (\<forall>T. T < fire \<longrightarrow> advance T w' = w')
            \<and> (\<forall>T. fire \<le> T \<longrightarrow>
                  signBuffer (advance T w') = [] \<and> timers (advance T w') = []
                  \<and> (if (case g of None \<Rightarrow> False | Some b \<Rightarrow> b)
                     then inflight (advance T w') = inflight w0 @ [(cb, toks)]
                          \<and> calls (advance T w') = calls w0
                     else calls (advance T w') = calls w0 @
                            [(cb, \<lparr>success = True, translation = join '' '' toks,
                                originalSigns = toks, displaySigns = Some toks,
                                method_tag = ''direct'', error = None\<rparr>)]
                          \<and> inflight (advance T w') = inflight w0))))"
proof (intro conjI impI)
  assume acc: "signBuffer (run es init) = [] \<or> last (signBuffer (run es init)) \<noteq> s"
  have "timers_ok (run es init)"
    by (rule timers_ok_run[OF timers_ok_init])
  then show "timers (snd (addSignToBuffer s cb g now (run es init))) =
        [\<lparr>handle = nextHandle (run es init), due = now + 4000, callback = cb,
          useGemini = (case g of None \<Rightarrow> False | Some b \<Rightarrow> b)\<rparr>]"
    by (simp add: add_accepted[OF acc] timers_ok_pending_after_clear)
next
  assume "signBuffer w \<noteq> [] \<and> last (signBuffer w) = s"
  then show "snd (addSignToBuffer s cb g now w) = w"
    by (simp add: add_rejected)
next
  assume a: "w0 = run es0 init \<and> signBuffer w0 = [] \<and> toks \<noteq> [] \<and> distinct_adj toks"
  then have a1: "w0 = run es0 init" and a2: "signBuffer w0 = []"
    and a3: "toks \<noteq> []" and a4: "distinct_adj toks"
    by blast+
  from a3 obtain x xs where toks: "toks = x # xs"
    by (cases toks) auto
  define G where "G = (case g of None \<Rightarrow> False | Some b \<Rightarrow> b)"
  define fire where "fire = t + 2000 * (int (length toks) - 1) + 4000"
  define tm where "tm = \<lparr>handle = nextHandle w0 + length xs, due = fire, callback = cb, useGemini = G\<rparr>"
  define w' where "w' = simulate (spaced t 2000 cb g toks) w0"
  have ok0: "timers_ok w0"
    unfolding a1 by (rule timers_ok_run[OF timers_ok_init])
  have t0: "timers w0 = []"
    using a2 unfolding a1 by (rule idle_reachable)
  have "simulate (spaced t 2000 cb g (x # xs)) w0 =
    w0\<lparr>signBuffer := signBuffer w0 @ x # xs,
      lastSignTime := t + 2000 * int (length xs),
      bufferTimer := Some (nextHandle w0 + length xs),
      timers := [\<lparr>handle = nextHandle w0 + length xs, due = t + 2000 * int (length xs) + 4000,
                  callback = cb, useGemini = (case g of None \<Rightarrow> False | Some b \<Rightarrow> b)\<rparr>],
      nextHandle := Suc (nextHandle w0 + length xs)\<rparr>"
    using ok0 t0 a2 a4 by (intro simulate_spaced) (simp_all add: toks)
  then have w': "w' = w0\<lparr>signBuffer := toks, lastSignTime := t + 2000 * int (length xs),
      bufferTimer := Some (nextHandle w0 + length xs), timers := [tm],
      nextHandle := Suc (nextHandle w0 + length xs)\<rparr>"
    by (simp add: w'_def a2 toks tm_def fire_def G_def)
  have p1: "signBuffer w' = toks" "calls w' = calls w0" "inflight w' = inflight w0"
    "timers w' = [tm]"
    by (simp_all add: w')
  have ne: "signBuffer w' \<noteq> []"
    using a3 by (simp add: p1)
  have fnd: "find (\<lambda>x. handle x = handle tm) (timers w') = Some tm"
    by (simp add: p1)
  have early: "advance T w' = w'" if "T < fire" for T
    using that by (intro advance_idle) (simp add: p1 tm_def)
  have late: "advance T w' = timer_fires (handle tm) w'" if "fire \<le> T" for T
    using that by (intro advance_single) (simp_all add: p1 tm_def)
  have fired: "signBuffer (timer_fires (handle tm) w') = []"
    "timers (timer_fires (handle tm) w') = []"
    "if G then inflight (timer_fires (handle tm) w') = inflight w0 @ [(cb, toks)]
               \<and> calls (timer_fires (handle tm) w') = calls w0
     else calls (timer_fires (handle tm) w') = calls w0 @
            [(cb, \<lparr>success = True, translation = join '' '' toks,
                originalSigns = toks, displaySigns = Some toks,
                method_tag = ''direct'', error = None\<rparr>)]
          \<and> inflight (timer_fires (handle tm) w') = inflight w0"
  proof -
    show "signBuffer (timer_fires (handle tm) w') = []"
      using ne fnd by (simp add: signBuffer_timer_fires dispatches_iff)
    have "useGemini tm = G" "callback tm = cb"
      by (simp_all add: tm_def)
    then show "if G then inflight (timer_fires (handle tm) w') = inflight w0 @ [(cb, toks)]
               \<and> calls (timer_fires (handle tm) w') = calls w0
     else calls (timer_fires (handle tm) w') = calls w0 @
            [(cb, \<lparr>success = True, translation = join '' '' toks,
                originalSigns = toks, displaySigns = Some toks,
                method_tag = ''direct'', error = None\<rparr>)]
          \<and> inflight (timer_fires (handle tm) w') = inflight w0"
      using ne fnd
      by (cases G) (simp_all add: timer_fires_direct timer_fires_gemini p1)
    show "timers (timer_fires (handle tm) w') = []"
      using fnd by (simp add: timer_fires_def timers_flush_callback clearTimeout_def p1)
  qed
  show "let w' = simulate (spaced t 2000 cb g toks) w0;
             fire = t + 2000 * (int (length toks) - 1) + 4000
         in signBuffer w' = toks \<and> calls w' = calls w0 \<and> inflight w' = inflight w0
            \<and> (\<forall>T. T < fire \<longrightarrow> advance T w' = w')
            \<and> (\<forall>T. fire \<le> T \<longrightarrow>
                  signBuffer (advance T w') = [] \<and> timers (advance T w') = []
                  \<and> (if (case g of None \<Rightarrow> False | Some b \<Rightarrow> b)
                     then inflight (advance T w') = inflight w0 @ [(cb, toks)]
                          \<and> calls (advance T w') = calls w0
                     else calls (advance T w') = calls w0 @
                            [(cb, \<lparr>success = True, translation = join '' '' toks,
                                originalSigns = toks, displaySigns = Some toks,
                                method_tag = ''direct'', error = None\<rparr>)]
                          \<and> inflight (advance T w') = inflight w0))"
    unfolding Let_def w'_def[symmetric] fire_def[symmetric] G_def[symmetric]
    using p1(1-3) early late fired by simp
qed

theorem debounce_restart_witness:
  "(let w = run [AddSign ''STOP'' 7 None 0] init
    in signBuffer w \<noteq> [] \<and> last (signBuffer w) = ''STOP''
       \<and> snd (addSignToBuffer ''STOP'' 7 None 3999 w) = w)
   \<and> timers (snd (addSignToBuffer ''STOP'' 7 None 3999 (run [] init))) =
       [\<lparr>handle = 1, due = 7999, callback = 7, useGemini = False\<rparr>]
   \<and> (let w' = simulate (spaced 0 2000 7 None [''ONE'', ''TWO'', ''ONE'']) init
      in distinct_adj [''ONE'', ''TWO'', ''ONE''] \<and> signBuffer w' = [''ONE'', ''TWO'', ''ONE'']
         \<and> advance 7999 w' = w'
         \<and> timers (advance 8000 w') = []
         \<and> calls (advance 8000 w') =
             [(7, \<lparr>success = True, translation = ''ONE TWO ONE'',
                  originalSigns = [''ONE'', ''TWO'', ''ONE''],
                  displaySigns = Some [''ONE'', ''TWO'', ''ONE''],
                  method_tag = ''direct'', error = None\<rparr>)])"
proof -
  define w where "w = run [AddSign ''STOP'' 7 None 0] init"
  define toks where "toks = [''ONE'', ''TWO'', ''ONE'']"
  define w' where "w' = simulate (spaced 0 2000 7 None toks) init"
  have h1: "signBuffer (run [] init) = [] \<or> last (signBuffer (run [] init)) \<noteq> ''STOP''"
    by (simp add: init_def)
  have h2: "signBuffer w \<noteq> [] \<and> last (signBuffer w) = ''STOP''"
    by (simp add: w_def eval_defs)
  have h3: "init = run [] init \<and> signBuffer init = [] \<and> toks \<noteq> [] \<and> distinct_adj toks"
    by (simp add: init_def toks_def)
  have e: "nextHandle init = 1" "calls init = []" "signBuffer init = []"
    "join '' '' toks = ''ONE TWO ONE''" "int (length toks) = 3"
    by (simp_all add: init_def toks_def)
  note th = debounce_restart[where es = "[]" and s = "''STOP''" and cb = 7 and g = None
      and now = 3999 and w = w and ?w0.0 = init and ?es0.0 = "[]" and toks = toks and t = 0,
      unfolded Let_def, folded w'_def]
  from th h1 have c1: "timers (snd (addSignToBuffer ''STOP'' 7 None 3999 (run [] init))) =
       [\<lparr>handle = 1, due = 7999, callback = 7, useGemini = False\<rparr>]"
    by (simp add: e)
  from th h2 have c2: "snd (addSignToBuffer ''STOP'' 7 None 3999 w) = w"
    by blast
  from th h3 have c3: "signBuffer w' = toks"
    "\<forall>T. T < 8000 \<longrightarrow> advance T w' = w'"
    "\<forall>T. 8000 \<le> T \<longrightarrow> timers (advance T w') = [] \<and> calls (advance T w') =
         [(7, \<lparr>success = True, translation = ''ONE TWO ONE'',
                  originalSigns = toks, displaySigns = Some toks,
                  method_tag = ''direct'', error = None\<rparr>)]"
    by (simp_all add: e)
  from c3(2) have c4: "advance 7999 w' = w'" by simp
  from c3(3) have c5: "timers (advance 8000 w') = [] \<and> calls (advance 8000 w') =
         [(7, \<lparr>success = True, translation = ''ONE TWO ONE'',
                  originalSigns = toks, displaySigns = Some toks,
                  method_tag = ''direct'', error = None\<rparr>)]" by simp
  show ?thesis
    unfolding Let_def w_def[symmetric] toks_def[symmetric] w'_def[symmetric]
    using h2 h3 c1 c2 c3(1) c4 c5 by simp
qed

text \<open>
  C3 (no immediate duplicate). In every run from module load, with any labels and
  timestamps, no two neighbours in the buffer are equal; a call whose label equals
  the last entry of the buffer is rejected, the state unchanged, whatever the time.
\<close>

theorem no_adjacent_duplicates:
  "distinct_adj (signBuffer (run es init))
   \<and> (signBuffer w \<noteq> [] \<and> last (signBuffer w) = s \<longrightarrow>
        addSignToBuffer s cb g now w = (signBuffer w, w))"
proof
  have "distinct_adj (signBuffer init)"
    by (simp add: init_def)
  then show "distinct_adj (signBuffer (run es init))"
    by (rule distinct_adj_run)
  show "signBuffer w \<noteq> [] \<and> last (signBuffer w) = s \<longrightarrow>
        addSignToBuffer s cb g now w = (signBuffer w, w)"
    by (simp add: add_rejected)
qed

theorem no_adjacent_duplicates_witness:
  "(let w = run [AddSign ''STOP'' 7 None 0] init
    in signBuffer w = [''STOP''] \<and> last (signBuffer w) = ''STOP''
       \<and> addSignToBuffer ''STOP'' 7 None 86400000 w = ([''STOP''], w))"
proof -
  define w where "w = run [AddSign ''STOP'' 7 None 0] init"
  have b: "signBuffer w = [''STOP'']"
    by (simp add: w_def init_def addSignToBuffer_def setTimeout_def clear_if_set_def Let_def)
  then have h: "signBuffer w \<noteq> [] \<and> last (signBuffer w) = ''STOP''"
    by simp
  from no_adjacent_duplicates[of "[]" w "''STOP''" 7 None 86400000] h b show ?thesis
    unfolding w_def[symmetric] by simp
qed

text \<open>
  C4 as stated fails. The sign ONE is accepted at time 0, the user clears the buffer,
  and ONE is detected again at time 200: ONE is the label accepted last, 200 ms ago,
  and the call appends it all the same, since both duplicate checks ask for a
  buffer that is not empty.
\<close>

theorem reject_window_counterexample:
  "last_accepted [AddSign ''ONE'' 7 None 0, ClearSignBuffer] init None = Some (''ONE'', 0)
   \<and> 200 - 0 < (3000 :: int)
   \<and> getSignBuffer (run [AddSign ''ONE'' 7 None 0, ClearSignBuffer] init) = []
   \<and> fst (addSignToBuffer ''ONE'' 7 None 200 (run [AddSign ''ONE'' 7 None 0, ClearSignBuffer] init))
       = [''ONE'']"
  by (simp add: init_def addSignToBuffer_def setTimeout_def clear_if_set_def clearTimeout_def
      clearSignBuffer_def getSignBuffer_def appends_def Let_def)

text \<open>
  C4, amended (reject window). The module keeps one timestamp, \<^verbatim>\<open>lastSignTime\<close>, for
  the whole session; whenever the buffer is not empty, its last entry is the label
  accepted last in the run and \<^verbatim>\<open>lastSignTime\<close> is the time of that acceptance. A
  detection of that label less than 3000 ms later is rejected and the state is
  unchanged. When the buffer is empty, as after a flush or a clear, the detection is
  accepted whatever the time elapsed.
\<close>

theorem reject_window:
  "(signBuffer (run es init) \<noteq> [] \<longrightarrow>
      last_accepted es init None = Some (last (signBuffer (run es init)), lastSignTime (run es init)))
   \<and> (signBuffer w \<noteq> [] \<and> last (signBuffer w) = s \<and> now - lastSignTime w < 3000 \<longrightarrow>
        addSignToBuffer s cb g now w = (signBuffer w, w))
   \<and> (signBuffer w = [] \<longrightarrow> fst (addSignToBuffer s cb g now w) = [s])"
proof (intro conjI impI)
  assume ne: "signBuffer (run es init) \<noteq> []"
  have "tracks (run es init) (last_accepted es init None)"
    by (rule tracks_run[OF tracks_init])
  with ne show "last_accepted es init None
      = Some (last (signBuffer (run es init)), lastSignTime (run es init))"
    by (auto simp: tracks_def split: option.splits)
next
  assume "signBuffer w \<noteq> [] \<and> last (signBuffer w) = s \<and> now - lastSignTime w < 3000"
  then show "addSignToBuffer s cb g now w = (signBuffer w, w)"
    by (simp add: add_rejected)
next
  assume "signBuffer w = []"
  then show "fst (addSignToBuffer s cb g now w) = [s]"
    by (simp add: add_accepted)
qed

theorem reject_window_witness:
  "(let es = [AddSign ''ONE'' 7 None 0]; w = run es init
    in signBuffer w = [''ONE''] \<and> last_accepted es init None = Some (''ONE'', 0)
       \<and> 500 - lastSignTime w < 3000
       \<and> addSignToBuffer ''ONE'' 7 None 500 w = ([''ONE''], w))"
proof -
  define es where "es = [AddSign ''ONE'' 7 None 0]"
  define w where "w = run es init"
  have b: "signBuffer w = [''ONE'']" "lastSignTime w = 0"
    by (simp_all add: w_def es_def init_def addSignToBuffer_def setTimeout_def clear_if_set_def Let_def)
  then have h: "signBuffer w \<noteq> [] \<and> last (signBuffer w) = ''ONE'' \<and> 500 - lastSignTime w < 3000"
    by simp
  from reject_window[of es w "''ONE''" 500 7 None] h b show ?thesis
    unfolding Let_def es_def[symmetric] w_def[symmetric] by simp
qed

text \<open>
  C5 as stated fails: when the backend call fails, the \<^verbatim>\<open>method\<close> of the result is
  the string \<^verbatim>\<open>fallback-direct\<close>, not \<^verbatim>\<open>fallback\<close>.
\<close>

theorem fallback_method_counterexample:
  "method_tag (translateSignSequence (Throws ''Failed to fetch'') [''HELLO'', ''YES'']) \<noteq> ''fallback''"
  by (simp add: translateSignSequence_def)

text \<open>
  C5, amended (fallback). Whatever is thrown in the \<^verbatim>\<open>try\<close> block of
  \<^verbatim>\<open>translateSignSequence\<close>, the function returns a result: \<^verbatim>\<open>success\<close> is false,
  \<^verbatim>\<open>method\<close> is \<^verbatim>\<open>fallback-direct\<close>, \<^verbatim>\<open>translation\<close> is the original tokens joined
  by single spaces, and \<^verbatim>\<open>error\<close> is the message of what was thrown.
\<close>

theorem fallback_never_throws:
  "translateSignSequence (Throws message) signs =
     \<lparr>success = False, translation = join '' '' signs, originalSigns = signs,
      displaySigns = None, method_tag = ''fallback-direct'', error = Some message\<rparr>"
  by (simp add: translateSignSequence_def)

theorem fallback_never_throws_witness:
  "translateSignSequence (Throws ''Failed to fetch'') [''HELLO'', ''YES''] =
     \<lparr>success = False, translation = ''HELLO YES'', originalSigns = [''HELLO'', ''YES''],
      displaySigns = None, method_tag = ''fallback-direct'', error = Some ''Failed to fetch''\<rparr>"
  using fallback_never_throws[of "''Failed to fetch''" "[''HELLO'', ''YES'']"]
  by simp

text \<open>
  C6 (clear is silent). In every run from module load, \<^verbatim>\<open>clearSignBuffer\<close> leaves the
  buffer empty and no timeout pending, and calls nothing. Afterwards no timeout
  handle runs anything and the clock can reach any time without a dispatch; in any
  continuation the buffer, hence any later snapshot, holds only tokens appended
  after the clear.
\<close>

theorem clear_is_silent:
  "(let w' = clearSignBuffer (run es init)
    in getSignBuffer w' = [] \<and> timers w' = []
       \<and> calls w' = calls (run es init) \<and> inflight w' = inflight (run es init)
       \<and> timer_fires h w' = w' \<and> advance T w' = w'
       \<and> signBuffer (run es' w') = since_reset es' w' [])"
proof -
  define w' where "w' = clearSignBuffer (run es init)"
  have "timers_ok (run es init)"
    by (rule timers_ok_run[OF timers_ok_init])
  then have t: "timers w' = []"
    unfolding w'_def by (rule timers_clearSignBuffer)
  have b: "signBuffer w' = []"
    by (simp add: w'_def signBuffer_clearSignBuffer)
  have f: "timer_fires h w' = w'"
    by (rule timer_fires_not_pending) (simp add: t)
  have a: "advance T w' = w'"
    by (rule advance_idle) (simp add: t)
  have r: "signBuffer (run es' w') = since_reset es' w' []"
    using buffer_since_reset[of es' w'] by (simp add: b)
  show ?thesis
    unfolding Let_def w'_def[symmetric]
    using t b f a r by (simp add: getSignBuffer_def w'_def calls_clearSignBuffer)
qed

theorem clear_is_silent_witness:
  "(let w = run [AddSign ''ONE'' 7 None 0, AddSign ''TWO'' 7 None 600] init;
        w' = clearSignBuffer w
    in getSignBuffer w = [''ONE'', ''TWO'']
       \<and> timers w = [\<lparr>handle = 2, due = 4600, callback = 7, useGemini = False\<rparr>]
       \<and> getSignBuffer w' = [] \<and> timers w' = [] \<and> calls w' = []
       \<and> timer_fires 2 w' = w' \<and> advance 4600 w' = w')"
proof -
  define w where "w = run [AddSign ''ONE'' 7 None 0, AddSign ''TWO'' 7 None 600] init"
  define w' where "w' = clearSignBuffer w"
  have e: "getSignBuffer w = [''ONE'', ''TWO'']"
    "timers w = [\<lparr>handle = 2, due = 4600, callback = 7, useGemini = False\<rparr>]"
    "calls w = []"
    by (simp_all add: w_def eval_defs)
  from clear_is_silent[of "[AddSign ''ONE'' 7 None 0, AddSign ''TWO'' 7 None 600]" 2 4600 "[]",
      unfolded Let_def, folded w_def, folded w'_def]
  show ?thesis
    unfolding Let_def w_def[symmetric] w'_def[symmetric]
    using e by simp
qed

text \<open>
  C7 (direct mode). A timeout set in direct mode that runs on a buffer \<open>S\<close> that is not
  empty calls the callback once more, with \<^verbatim>\<open>success\<close> true, \<^verbatim>\<open>translation\<close> the
  tokens of \<open>S\<close> joined by single spaces, \<^verbatim>\<open>originalSigns\<close> equal to \<open>S\<close> and
  \<^verbatim>\<open>method\<close> equal to \<^verbatim>\<open>direct\<close>. Direct mode is the default: a call without the
  third argument sets its timeout in direct mode.
\<close>

theorem direct_mode_result:
  assumes "find (\<lambda>tm. handle tm = h) (timers w) = Some tm"
    and "\<not> useGemini tm" and "signBuffer w \<noteq> []"
  shows "calls (timer_fires h w) = calls w @
      [(callback tm, \<lparr>success = True, translation = join '' '' (signBuffer w),
          originalSigns = signBuffer w, displaySigns = Some (signBuffer w),
          method_tag = ''direct'', error = None\<rparr>)]
    \<and> (signBuffer w' = [] \<or> last (signBuffer w') \<noteq> s \<longrightarrow>
         \<not> useGemini (last (timers (snd (addSignToBuffer s cb None now w')))))"
  using assms by (auto simp: timer_fires_direct add_accepted)

theorem direct_mode_result_witness:
  "(let w = run [AddSign ''HELLO'' 7 None 0, AddSign ''YES'' 7 None 900] init
    in find (\<lambda>tm. handle tm = 2) (timers w)
         = Some \<lparr>handle = 2, due = 4900, callback = 7, useGemini = False\<rparr>
       \<and> signBuffer w = [''HELLO'', ''YES'']
       \<and> calls (timer_fires 2 w) =
           [(7, \<lparr>success = True, translation = ''HELLO YES'',
                originalSigns = [''HELLO'', ''YES''], displaySigns = Some [''HELLO'', ''YES''],
                method_tag = ''direct'', error = None\<rparr>)]
       \<and> \<not> useGemini (last (timers (snd (addSignToBuffer ''HELLO'' 7 None 0 init)))))"
proof -
  define w where "w = run [AddSign ''HELLO'' 7 None 0, AddSign ''YES'' 7 None 900] init"
  define tm where "tm = \<lparr>handle = 2, due = 4900, callback = 7, useGemini = False\<rparr>"
  have h1: "find (\<lambda>tm. handle tm = 2) (timers w) = Some tm"
    by (simp add: w_def tm_def eval_defs)
  have h2: "\<not> useGemini tm"
    by (simp add: tm_def)
  have e: "signBuffer w = [''HELLO'', ''YES'']" "calls w = []" "callback tm = 7"
    by (simp_all add: w_def tm_def eval_defs)
  then have h3: "signBuffer w \<noteq> []"
    by simp
  have h4: "signBuffer init = [] \<or> last (signBuffer init) \<noteq> ''HELLO''"
    by (simp add: init_def)
  from direct_mode_result[OF h1 h2 h3, of init "''HELLO''" 7 0] h4 h1 e
  show ?thesis
    unfolding Let_def w_def[symmetric] tm_def[symmetric] by simp
qed

text \<open>
  C8 (returned snapshot). \<^verbatim>\<open>addSignToBuffer\<close> has no failing path: for every label,
  timestamp and state it returns a value, and that value is the content of the buffer
  after the decision: the buffer with the new token at its end when the detection is
  accepted, the buffer as it was (and the state unchanged) when it is rejected. The
  returned list is a value of its own, as the spread copy of the source is.
\<close>

theorem returns_buffer_copy:
  "fst (addSignToBuffer s cb g now w) = getSignBuffer (snd (addSignToBuffer s cb g now w))
   \<and> getSignBuffer (snd (addSignToBuffer s cb g now w)) =
       (if signBuffer w \<noteq> [] \<and> last (signBuffer w) = s then signBuffer w
        else signBuffer w @ [s])
   \<and> (signBuffer w \<noteq> [] \<and> last (signBuffer w) = s \<longrightarrow> snd (addSignToBuffer s cb g now w) = w)"
proof (cases "signBuffer w = [] \<or> last (signBuffer w) \<noteq> s")
  case True
  then show ?thesis by (auto simp: add_accepted getSignBuffer_def)
next
  case False
  then show ?thesis by (simp add: add_rejected getSignBuffer_def)
qed

theorem returns_buffer_copy_witness:
  "(let w = run [AddSign ''ONE'' 7 None 0] init
    in signBuffer w = [''ONE'']
       \<and> fst (addSignToBuffer ''ONE'' 7 None 5000 w) = [''ONE'']
       \<and> snd (addSignToBuffer ''ONE'' 7 None 5000 w) = w
       \<and> fst (addSignToBuffer ''TWO'' 7 None 5000 w) = [''ONE'', ''TWO'']
       \<and> getSignBuffer (snd (addSignToBuffer ''TWO'' 7 None 5000 w)) = [''ONE'', ''TWO''])"
proof -
  define w where "w = run [AddSign ''ONE'' 7 None 0] init"
  have e: "signBuffer w = [''ONE'']"
    by (simp add: w_def eval_defs)
  from returns_buffer_copy[of "''ONE''" 7 None 5000 w]
    returns_buffer_copy[of "''TWO''" 7 None 5000 w] e
  show ?thesis
    unfolding Let_def w_def[symmetric] by (simp add: getSignBuffer_def)
qed

text \<open>
  C9 (empty buffer accepts). When the buffer is empty, \<^verbatim>\<open>addSignToBuffer\<close> accepts
  every label at every timestamp: the buffer becomes the one token,
  \<^verbatim>\<open>lastSignTime\<close> the timestamp, and a timeout due 4000 ms later is set and kept in
  \<^verbatim>\<open>bufferTimer\<close>; in a run from module load it is the only pending timeout.
\<close>

theorem empty_buffer_accepts:
  assumes "signBuffer w = []"
  shows "fst (addSignToBuffer s cb g now w) = [s]
     \<and> signBuffer (snd (addSignToBuffer s cb g now w)) = [s]
     \<and> lastSignTime (snd (addSignToBuffer s cb g now w)) = now
     \<and> bufferTimer (snd (addSignToBuffer s cb g now w)) = Some (nextHandle w)
     \<and> last (timers (snd (addSignToBuffer s cb g now w))) =
         \<lparr>handle = nextHandle w, due = now + 4000, callback = cb,
          useGemini = (case g of None \<Rightarrow> False | Some b \<Rightarrow> b)\<rparr>
     \<and> (w = run es init \<longrightarrow> length (timers (snd (addSignToBuffer s cb g now w))) = 1)"
proof -
  have "timers_ok (run es init)"
    by (rule timers_ok_run[OF timers_ok_init])
  then show ?thesis
    using assms by (auto simp: add_accepted timers_ok_pending_after_clear)
qed

theorem empty_buffer_accepts_witness:
  "(let es = [AddSign ''ONE'' 7 None 0, ClearSignBuffer]; w = run es init
    in signBuffer w = [] \<and> lastSignTime w = 0 \<and> 200 - lastSignTime w < 3000
       \<and> fst (addSignToBuffer ''ONE'' 7 None 200 w) = [''ONE'']
       \<and> bufferTimer (snd (addSignToBuffer ''ONE'' 7 None 200 w)) = Some 2
       \<and> last (timers (snd (addSignToBuffer ''ONE'' 7 None 200 w))) =
           \<lparr>handle = 2, due = 4200, callback = 7, useGemini = False\<rparr>
       \<and> length (timers (snd (addSignToBuffer ''ONE'' 7 None 200 w))) = 1)"
proof -
  define es where "es = [AddSign ''ONE'' 7 None 0, ClearSignBuffer]"
  define w where "w = run es init"
  have h: "signBuffer w = []"
    by (simp add: w_def es_def eval_defs)
  have e: "lastSignTime w = 0" "nextHandle w = 2"
    by (simp_all add: w_def es_def eval_defs)
  from empty_buffer_accepts[OF h, of "''ONE''" 7 None 200 es] h e w_def
  show ?thesis
    unfolding Let_def es_def[symmetric] w_def[symmetric] by simp
qed

text \<open>
  C10 (THREE is unreachable). For every argument, \<^verbatim>\<open>recognizeSign\<close> never returns the
  sign THREE. Whenever index and middle are extended and ring and pinky are not,
  whatever the thumb, an earlier branch has decided: STOP when the count is 0, PEACE
  otherwise.
\<close>

theorem recognizeSign_never_THREE:
  "sign (recognizeSign fo) \<noteq> Some ''THREE''
   \<and> (indexExtended f \<and> middleExtended f \<and> \<not> ringExtended f \<and> \<not> pinkyExtended f \<longrightarrow>
        sign (recognizeSign (Some f)) =
          (if extendedCount f = 0 then Some ''STOP'' else Some ''PEACE''))"
  by (simp add: recognizeSign_def split: option.split)

theorem recognizeSign_never_THREE_witness:
  "(let f = \<lparr>extendedCount = 3, thumbExtended = True, indexExtended = True,
              middleExtended = True, ringExtended = False, pinkyExtended = False\<rparr>
    in indexExtended f \<and> middleExtended f \<and> \<not> ringExtended f \<and> \<not> pinkyExtended f
       \<and> thumbExtended f
       \<and> sign (recognizeSign (Some f)) = Some ''PEACE'')"
proof -
  define f where "f = \<lparr>extendedCount = 3, thumbExtended = True, indexExtended = True,
              middleExtended = True, ringExtended = False, pinkyExtended = False\<rparr>"
  have h: "indexExtended f \<and> middleExtended f \<and> \<not> ringExtended f \<and> \<not> pinkyExtended f"
    "thumbExtended f" "extendedCount f \<noteq> 0"
    by (simp_all add: f_def)
  from recognizeSign_never_THREE[of "Some f" f] h show ?thesis
    unfolding Let_def f_def[symmetric] by simp
qed

end
